theory Spec2Isabelle
  imports Main "HOL-Library.Char_ord" "HOL-Library.List_Lexorder" "HOL-Library.AList"
begin

section \<open>Label records\<close>

text \<open>
  \<^verbatim>\<open>labels.py\<close> keeps every label as a JSON object (a Python dict) and reads five
  keys of it: \<^verbatim>\<open>name\<close>, \<^verbatim>\<open>description\<close> and \<^verbatim>\<open>color\<close>, which it uses as strings
  (concatenation, \<^verbatim>\<open>re.sub\<close>, \<^verbatim>\<open>.lower()\<close>), and the flags \<^verbatim>\<open>w3c\<close> and
  \<^verbatim>\<open>url_exclude_is_open\<close>, which it compares with \<^verbatim>\<open>True\<close>. The model gives the five
  keys these types, as \<^verbatim>\<open>labels.json\<close> and the W3C feed do; keys the program never
  reads are left out. Any of the five may be absent, so every field is an option:
  \<^verbatim>\<open>"k" in label\<close> is \<open>k label \<noteq> None\<close>, \<^verbatim>\<open>label["k"]\<close> is \<open>subscript (k label)\<close>, and
  \<^verbatim>\<open>del label["k"]\<close> sets the field to \<open>None\<close>. A flag that is present may be
  \<^verbatim>\<open>false\<close>. A Python character is an Isabelle \<^typ>\<open>char\<close> (code points below 256),
  so \<^verbatim>\<open>len\<close> is \<^const>\<open>length\<close>.
\<close>

record label =
  name :: "string option"
  description :: "string option"
  color :: "string option"
  w3c :: "bool option"
  url_exclude_is_open :: "bool option"

text \<open>The exceptions the modelled code can raise.\<close>

datatype error = KeyError | IndexError | AssertionError

text \<open>\<^verbatim>\<open>d["k"]\<close> on a dict: a missing key raises \<^verbatim>\<open>KeyError\<close>.\<close>

definition subscript :: "'a option \<Rightarrow> error + 'a" where
  "subscript v = (case v of None \<Rightarrow> Inl KeyError | Some x \<Rightarrow> Inr x)"

text \<open>\<^verbatim>\<open>xs[i]\<close> on a list with a non-negative index.\<close>

definition list_get :: "'a list \<Rightarrow> nat \<Rightarrow> error + 'a" where
  "list_get xs i = (if i < length xs then Inr (xs ! i) else Inl IndexError)"

text \<open>Sequencing of a computation that may raise: the first exception ends it.\<close>

definition and_then :: "error + 'a \<Rightarrow> ('a \<Rightarrow> error + 'b) \<Rightarrow> error + 'b" where
  "and_then m f = (case m of Inl e \<Rightarrow> Inl e | Inr x \<Rightarrow> f x)"

section \<open>Strings\<close>

text \<open>
  \<^verbatim>\<open>str.lower()\<close> on code points below 256: the ASCII capitals and the Latin-1
  capitals (U+00C0 to U+00DE without the multiplication sign U+00D7) move up by 32.
\<close>

definition lower_char :: "char \<Rightarrow> char" where
  "lower_char c =
     (let n = (of_char c :: nat)
      in if (65 \<le> n \<and> n \<le> 90) \<or> (192 \<le> n \<and> n \<le> 214) \<or> (216 \<le> n \<and> n \<le> 222)
         then char_of (n + 32) else c)"

definition lower :: "string \<Rightarrow> string" where
  "lower s = map lower_char s"

text \<open>\<^verbatim>\<open>str(n)\<close> for a non-negative integer: its decimal digits.\<close>

fun str_nat :: "nat \<Rightarrow> string" where
  "str_nat n =
     (if n < 10 then [''0123456789'' ! n]
      else str_nat (n div 10) @ [''0123456789'' ! (n mod 10)])"

declare str_nat.simps [simp del]

section \<open>Stripping Markdown links\<close>

text \<open>
  \<^verbatim>\<open>remove_markdown_links\<close> is \<^verbatim>\<open>re.sub(r"\[(.+)\]\(.+\)", r"\1", input)\<close>. The matcher
  below is Python's backtracking matcher specialised to this pattern. \<^verbatim>\<open>.\<close> matches
  every character but the newline. \<^verbatim>\<open>.+\<close> is greedy: it first takes the longest run of
  such characters and gives characters back one at a time while the rest of the
  pattern fails; \<open>plus_dot\<close> lists the lengths it tries, in that order, and
  \<open>first_match\<close> takes the first alternative on which the rest succeeds.
\<close>

definition dot :: "char \<Rightarrow> bool" where
  "dot c = (c \<noteq> CHR 0x0A)"

definition plus_dot :: "string \<Rightarrow> nat list" where
  "plus_dot s = rev [1..<Suc (length (takeWhile dot s))]"

fun first_match :: "(nat \<Rightarrow> 'a option) \<Rightarrow> nat list \<Rightarrow> 'a option" where
  "first_match f [] = None"
| "first_match f (n # ns) = (case f n of Some r \<Rightarrow> Some r | None \<Rightarrow> first_match f ns)"

text \<open>\<^verbatim>\<open>.+\)\<close> at the start of \<open>s\<close>: the number of characters matched.\<close>

definition match_url :: "string \<Rightarrow> nat option" where
  "match_url s =
     first_match (\<lambda>n. if n < length s \<and> s ! n = CHR '')'' then Some (Suc n) else None)
       (plus_dot s)"

text \<open>
  The whole pattern at the start of \<open>s\<close>: group 1 and the number of characters
  matched.
\<close>

definition match_link :: "string \<Rightarrow> (string \<times> nat) option" where
  "match_link s =
     (case s of
        [] \<Rightarrow> None
      | c # r \<Rightarrow>
          if c \<noteq> CHR ''['' then None
          else first_match
                 (\<lambda>n. if take 2 (drop n r) = ''](''
                      then map_option (\<lambda>m. (take n r, Suc n + 2 + m)) (match_url (drop (n + 2) r))
                      else None)
                 (plus_dot r))"

lemma first_match_Some:
  "first_match f ns = Some r \<Longrightarrow> \<exists>n \<in> set ns. f n = Some r"
  by (induction ns) (auto split: option.splits)

lemma match_link_pos: "match_link s = Some (g, n) \<Longrightarrow> 0 < n"
  by (auto simp: match_link_def split: list.splits if_splits dest!: first_match_Some)

text \<open>
  \<^verbatim>\<open>re.sub\<close> scans from the left: where the pattern matches, the match is replaced by
  group 1 and the scan goes on behind the match; elsewhere the character is kept.
\<close>

function re_sub :: "string \<Rightarrow> string" where
  "re_sub [] = []"
| "re_sub (c # cs) =
     (case match_link (c # cs) of
        Some (g, n) \<Rightarrow> g @ re_sub (drop n (c # cs))
      | None \<Rightarrow> c # re_sub cs)"
  by pat_completeness auto
termination
  by (relation "measure length") (auto dest: match_link_pos)

definition remove_markdown_links :: "string \<Rightarrow> string" where
  "remove_markdown_links input = re_sub input"

section \<open>The validator\<close>

text \<open>
  The body of the loop of \<^verbatim>\<open>lint_labels\<close> for one label: the lines it prints, or the
  exception it raises. Each \<^verbatim>\<open>label["k"]\<close> is a \<open>subscript\<close>, as in the source.
\<close>

definition lint_label :: "label \<Rightarrow> error + string list" where
  "lint_label l =
     (if name l = None then Inr [''A label needs a name'']
      else if description l = None then
        and_then (subscript (name l)) (\<lambda>n.
          Inr [''A label ('' @ n @ '') needs a description''])
      else
        and_then (subscript (description l)) (\<lambda>d.
          if length (remove_markdown_links d) > 100 then
            and_then (subscript (name l)) (\<lambda>n.
              Inr [''GitHub will likely complain about the length of your label (''
                   @ n @ '')'' @ [CHR 0x27] @ ''s description.''])
          else if color l = None then
            and_then (subscript (name l)) (\<lambda>n.
              Inr [''A label ('' @ n @ '') needs a color''])
          else if url_exclude_is_open l \<noteq> None \<and> url_exclude_is_open l \<noteq> Some True then
            and_then (subscript (name l)) (\<lambda>n.
              Inr [''A label ('' @ n @ '')'' @ [CHR 0x27]
                   @ ''s url_exclude_is_open needs to be set to true if present.''])
          else if w3c l \<noteq> None \<and> w3c l \<noteq> Some True then
            and_then (subscript (name l)) (\<lambda>n.
              Inr [''A label ('' @ n @ '')'' @ [CHR 0x27]
                   @ ''s w3c needs to be set to true if present.''])
          else Inr []))"

text \<open>
  \<^verbatim>\<open>lint_labels\<close>: the lines printed, and the exception that ended the loop, if any.
\<close>

fun lint_labels :: "label list \<Rightarrow> string list \<times> error option" where
  "lint_labels [] = ([], None)"
| "lint_labels (l # ls) =
     (case lint_label l of
        Inl e \<Rightarrow> ([], Some e)
      | Inr ms \<Rightarrow> (case lint_labels ls of (out, r) \<Rightarrow> (ms @ out, r)))"

section \<open>Importing the W3C labels\<close>

text \<open>
  \<^verbatim>\<open>import_w3c_labels\<close> works on two lists of labels: \<open>w3c_labels\<close>, the feed that
  \<^verbatim>\<open>fetch_json\<close> returned, and \<open>local_labels\<close>, the content of \<^verbatim>\<open>labels.json\<close>.
  \<open>w3c_label_index\<close> is a Python dict from names to positions in the feed. Its
  iteration order is its insertion order, so it is an association list:
  \<^const>\<open>AList.update\<close> is \<^verbatim>\<open>d[k] = v\<close> (a known key keeps its place, a new one goes
  last), \<^const>\<open>AList.delete\<close> is \<^verbatim>\<open>del d[k]\<close>, and \<^const>\<open>map_of\<close> looks a key up.
\<close>

type_synonym label_index = "(string \<times> nat) list"

text \<open>Lines 33 to 37: the name index of the feed.\<close>

fun index_loop :: "label list \<Rightarrow> nat \<Rightarrow> label_index \<Rightarrow> error + label_index" where
  "index_loop [] i w3c_label_index = Inr w3c_label_index"
| "index_loop (l # ls) i w3c_label_index =
     and_then (subscript (name l)) (\<lambda>n.
       index_loop ls (Suc i) (AList.update n i w3c_label_index))"

text \<open>
  Lines 42 to 51: every local label whose name is in the index takes the description
  and the lower-cased colour of the feed's label and \<^verbatim>\<open>w3c: True\<close>, and its name leaves
  the index; a label that is not in the index and has the key \<^verbatim>\<open>w3c\<close> fails the
  assertion. The result is the updated list and what is left of the index.
\<close>

fun update_loop ::
  "label list \<Rightarrow> label list \<Rightarrow> label_index \<Rightarrow> error + (label list \<times> label_index)" where
  "update_loop w3c_labels [] w3c_label_index = Inr ([], w3c_label_index)"
| "update_loop w3c_labels (l # ls) w3c_label_index =
     and_then (subscript (name l)) (\<lambda>n.
       case map_of w3c_label_index n of
         Some w3c_index \<Rightarrow>
           and_then (list_get w3c_labels w3c_index) (\<lambda>u.
           and_then (subscript (description u)) (\<lambda>d.
           and_then (subscript (color u)) (\<lambda>c.
           and_then (update_loop w3c_labels ls (AList.delete n w3c_label_index)) (\<lambda>(ls', rest).
             Inr (l\<lparr>description := Some d, color := Some (lower c), w3c := Some True\<rparr> # ls',
                  rest)))))
       | None \<Rightarrow>
           if w3c l \<noteq> None then Inl AssertionError
           else and_then (update_loop w3c_labels ls w3c_label_index) (\<lambda>(ls', rest).
                  Inr (l # ls', rest)))"

text \<open>Lines 54 to 61: every name left in the index gives a new label, appended.\<close>

fun add_loop :: "label list \<Rightarrow> label_index \<Rightarrow> label list \<Rightarrow> error + label list" where
  "add_loop w3c_labels [] local_labels = Inr local_labels"
| "add_loop w3c_labels ((w3c_label_name, w3c_index) # rest) local_labels =
     and_then (list_get w3c_labels w3c_index) (\<lambda>u.
     and_then (subscript (name u)) (\<lambda>n.
     and_then (subscript (description u)) (\<lambda>d.
     and_then (subscript (color u)) (\<lambda>c.
       add_loop w3c_labels rest
         (local_labels @
          [\<lparr>name = Some n, description = Some d, color = Some (lower c),
            w3c = Some True, url_exclude_is_open = None\<rparr>])))))"

text \<open>
  Lines 30 to 61, the merge: the list that \<^verbatim>\<open>import_w3c_labels\<close> hands to
  \<^verbatim>\<open>update_labels\<close>, or the exception raised before that call.
\<close>

definition merge_labels :: "label list \<Rightarrow> label list \<Rightarrow> error + label list" where
  "merge_labels local_labels w3c_labels =
     and_then (index_loop w3c_labels 0 []) (\<lambda>w3c_label_index.
     and_then (update_loop w3c_labels local_labels w3c_label_index) (\<lambda>(local_labels', rest).
       add_loop w3c_labels rest local_labels'))"

text \<open>
  Well-formedness of the data: a label that has a name; a label that has name,
  description and colour; an index whose every entry \<open>(n, k)\<close> points at a label of
  the feed named \<open>n\<close>.
\<close>

definition named :: "label \<Rightarrow> bool" where
  "named l = (name l \<noteq> None)"

definition complete :: "label \<Rightarrow> bool" where
  "complete l = (name l \<noteq> None \<and> description l \<noteq> None \<and> color l \<noteq> None)"

definition index_ok :: "label list \<Rightarrow> label_index \<Rightarrow> bool" where
  "index_ok U idx = list_all (\<lambda>(n, k). k < length U \<and> name (U ! k) = Some n) idx"

section \<open>The world outside\<close>

text \<open>
  What the program reads and changes: \<open>disk\<close> is the content of \<^verbatim>\<open>labels.json\<close>,
  \<open>labels_md\<close> the content of \<^verbatim>\<open>LABELS.md\<close>, \<open>stdout\<close> the lines printed, \<open>remote\<close>
  the state of the label store behind the GitHub API, and \<open>sent\<close> the requests
  issued so far. A function with effects takes
  the world and returns it with its result; an exception leaves the effects made
  before it in place.
\<close>

datatype request =
  DELETE string string
| PATCH string string label
| POST string label

record 'r world =
  disk :: "label list"
  labels_md :: string
  stdout :: "string list"
  remote :: 'r
  sent :: "request list"

fun is_delete :: "request \<Rightarrow> bool" where
  "is_delete (DELETE u n) = True"
| "is_delete (PATCH u n l) = False"
| "is_delete (POST u l) = False"

text \<open>
  \<^verbatim>\<open>urllib.parse.quote_plus\<close> on code points below 256: letters, digits and
  \<^verbatim>\<open>_.-~\<close> are kept, a space becomes \<^verbatim>\<open>+\<close>, and every other character becomes the
  bytes of its UTF-8 encoding, each as \<^verbatim>\<open>%XX\<close>.
\<close>

definition always_safe :: "char \<Rightarrow> bool" where
  "always_safe c \<longleftrightarrow>
     c \<in> set ''ABCDEFGHIJKLMNOPQRSTUVWXYZabcdefghijklmnopqrstuvwxyz0123456789_.-~''"

definition percent :: "nat \<Rightarrow> string" where
  "percent b = [CHR ''%'', ''0123456789ABCDEF'' ! (b div 16), ''0123456789ABCDEF'' ! (b mod 16)]"

definition utf8 :: "char \<Rightarrow> nat list" where
  "utf8 c =
     (let n = (of_char c :: nat)
      in if n < 128 then [n] else [192 + n div 64, 128 + n mod 64])"

definition quote_plus :: "string \<Rightarrow> string" where
  "quote_plus s =
     concat (map (\<lambda>c. if always_safe c then [c]
                       else if c = CHR '' '' then ''+''
                       else concat (map percent (utf8 c))) s)"

text \<open>Lines 96 to 100.\<close>

definition format_label :: "label \<Rightarrow> error + string" where
  "format_label l =
     and_then (subscript (name l)) (\<lambda>n.
       let url = ''https://github.com/search?q=org%3Awhatwg+label%3A%22'' @ quote_plus n
                 @ ''%22'';
           url = (if url_exclude_is_open l = None then url @ ''+is%3Aopen'' else url)
       in and_then (subscript (name l)) (\<lambda>n.
          and_then (subscript (description l)) (\<lambda>d.
            Inr (''* ['' @ n @ '']('' @ url @ ''): '' @ d @ [CHR 0x0A]))))"

text \<open>
  The two loops of \<^verbatim>\<open>create_labels_docs\<close>: the first takes the labels without the
  key \<^verbatim>\<open>w3c\<close>, the second those with it.
\<close>

fun docs_loop :: "bool \<Rightarrow> label list \<Rightarrow> string \<Rightarrow> error + string" where
  "docs_loop with_w3c [] output = Inr output"
| "docs_loop with_w3c (l # ls) output =
     (if (w3c l \<noteq> None) \<noteq> with_w3c then docs_loop with_w3c ls output
      else and_then (format_label l) (\<lambda>line. docs_loop with_w3c ls (output @ line)))"

definition create_labels_docs :: "label list \<Rightarrow> error + string" where
  "create_labels_docs labels =
     and_then (docs_loop False labels
       (''<!-- Please do not edit this file directly. It is generated by labels.py -->''
        @ [CHR 0x0A, CHR 0x0A] @ ''# GitHub Labels'' @ [CHR 0x0A, CHR 0x0A]
        @ ''These are labels used by all [WHATWG standards](https://spec.whatwg.org/):''
        @ [CHR 0x0A, CHR 0x0A])) (\<lambda>output.
     docs_loop True labels
       (output @ [CHR 0x0A]
        @ ''The following [W3C horizontal labels]''
        @ ''(https://w3c.github.io/issue-metadata.html#horizontal-reviews)''
        @ '' can also be used:'' @ [CHR 0x0A, CHR 0x0A]))"

text \<open>
  \<^verbatim>\<open>update_labels\<close>: the lint's lines are printed, the list is sorted by name (the sort
  reads every name first; Python's sort is stable and compares strings by code point),
  \<^verbatim>\<open>labels.json\<close> is written, then \<^verbatim>\<open>LABELS.md\<close>. The JSON text written is not
  modelled: the disk holds the sorted list.
\<close>

fun names_of :: "label list \<Rightarrow> error + string list" where
  "names_of [] = Inr []"
| "names_of (l # ls) =
     and_then (subscript (name l)) (\<lambda>n. and_then (names_of ls) (\<lambda>ns. Inr (n # ns)))"

definition sort_by_name :: "label list \<Rightarrow> error + label list" where
  "sort_by_name labels =
     and_then (names_of labels) (\<lambda>ns. Inr (map snd (sort_key fst (zip ns labels))))"

definition update_labels :: "label list \<Rightarrow> 'r world \<Rightarrow> (error + unit) \<times> 'r world" where
  "update_labels labels w =
     (case lint_labels labels of
        (out, Some e) \<Rightarrow> (Inl e, w\<lparr>stdout := stdout w @ out\<rparr>)
      | (out, None) \<Rightarrow>
          (case sort_by_name labels of
             Inl e \<Rightarrow> (Inl e, w\<lparr>stdout := stdout w @ out\<rparr>)
           | Inr sorted_labels \<Rightarrow>
               (case create_labels_docs sorted_labels of
                  Inl e \<Rightarrow> (Inl e, w\<lparr>stdout := stdout w @ out, disk := sorted_labels\<rparr>)
                | Inr output \<Rightarrow>
                    (Inr (), w\<lparr>stdout := stdout w @ out, disk := sorted_labels,
                               labels_md := output\<rparr>))))"

text \<open>
  \<^verbatim>\<open>import_w3c_labels\<close> on the feed \<open>w3c_labels\<close>: the merge of lines 30 to 61 on the
  content of the disk, then \<^verbatim>\<open>update_labels\<close> (line 64).
\<close>

definition import_w3c_labels :: "label list \<Rightarrow> 'r world \<Rightarrow> (error + unit) \<times> 'r world" where
  "import_w3c_labels w3c_labels w =
     (case merge_labels (disk w) w3c_labels of
        Inl e \<Rightarrow> (Inl e, w)
      | Inr local_labels \<Rightarrow> update_labels local_labels w)"

section \<open>Adjusting the labels of a repository\<close>

text \<open>
  The label store answers every request with a status code and moves to a new state:
  \<open>srv\<close> is that behaviour, a parameter of everything below. A request keeps the
  method, \<open>common_url\<close>, the label's name where the URL ends in it, and the label
  sent as the JSON body; the percent-encoding of the name and the headers built from
  the token are not modelled.
\<close>

type_synonym 'r server = "'r \<Rightarrow> request \<Rightarrow> nat \<times> 'r"

definition fetch :: "'r server \<Rightarrow> request \<Rightarrow> 'r world \<Rightarrow> nat \<times> 'r world" where
  "fetch srv rq w =
     (case srv (remote w) rq of
        (status_code, r) \<Rightarrow> (status_code, w\<lparr>remote := r, sent := sent w @ [rq]\<rparr>))"

definition error_line :: "string \<Rightarrow> string \<Rightarrow> nat \<Rightarrow> string" where
  "error_line type label_name status =
     type @ '' label: '' @ label_name @ ''; status '' @ str_nat status"

definition report :: "string \<Rightarrow> string \<Rightarrow> nat \<Rightarrow> 'r world \<Rightarrow> 'r world" where
  "report type label_name status w =
     w\<lparr>stdout := stdout w @ [error_line type label_name status]\<rparr>"

definition delete_label :: "'r server \<Rightarrow> string \<Rightarrow> string \<Rightarrow> 'r world \<Rightarrow> 'r world" where
  "delete_label srv common_url label_name w =
     (case fetch srv (DELETE common_url label_name) w of
        (status_code, w') \<Rightarrow>
          if status_code \<noteq> 200 \<and> status_code \<noteq> 404
          then report ''Deleting'' label_name status_code w'
          else w')"

definition update_label ::
  "'r server \<Rightarrow> string \<Rightarrow> label \<Rightarrow> 'r world \<Rightarrow> (error + nat) \<times> 'r world" where
  "update_label srv common_url l w =
     (case subscript (name l) of
        Inl e \<Rightarrow> (Inl e, w)
      | Inr n \<Rightarrow> (case fetch srv (PATCH common_url n l) w of
                   (status_code, w') \<Rightarrow> (Inr status_code, w')))"

definition add_label ::
  "'r server \<Rightarrow> string \<Rightarrow> label \<Rightarrow> 'r world \<Rightarrow> (error + unit) \<times> 'r world" where
  "add_label srv common_url l w =
     (case fetch srv (POST common_url l) w of
        (status_code, w') \<Rightarrow>
          if status_code \<noteq> 201
          then (case subscript (name l) of
                  Inl e \<Rightarrow> (Inl e, w')
                | Inr n \<Rightarrow> (Inr (), report ''Adding'' n status_code w'))
          else (Inr (), w'))"

definition default_labels :: "string list" where
  "default_labels =
     [''bug'', ''duplicate'', ''enhancement'', ''help wanted'', ''invalid'', ''question'',
      ''wontfix'']"

text \<open>Lines 136 and 137.\<close>

fun delete_loop :: "'r server \<Rightarrow> string \<Rightarrow> string list \<Rightarrow> 'r world \<Rightarrow> 'r world" where
  "delete_loop srv common_url [] w = w"
| "delete_loop srv common_url (label_name # rest) w =
     delete_loop srv common_url rest (delete_label srv common_url label_name w)"

text \<open>Lines 143 to 150, the body of the loop over the local labels.\<close>

definition sync_label ::
  "'r server \<Rightarrow> string \<Rightarrow> label \<Rightarrow> 'r world \<Rightarrow> (error + unit) \<times> 'r world" where
  "sync_label srv common_url l w =
     (case subscript (description l) of
        Inl e \<Rightarrow> (Inl e, w)
      | Inr d \<Rightarrow>
          (let l' = l\<lparr>description := Some (remove_markdown_links d),
                      url_exclude_is_open := None\<rparr>
           in case update_label srv common_url l' w of
                (Inl e, w') \<Rightarrow> (Inl e, w')
              | (Inr status_code, w') \<Rightarrow>
                  if status_code = 404 then add_label srv common_url l' w'
                  else if status_code \<noteq> 200 then
                    (case subscript (name l') of
                       Inl e \<Rightarrow> (Inl e, w')
                     | Inr n \<Rightarrow> (Inr (), report ''Updating'' n status_code w'))
                  else (Inr (), w')))"

fun sync_loop ::
  "'r server \<Rightarrow> string \<Rightarrow> label list \<Rightarrow> 'r world \<Rightarrow> (error + unit) \<times> 'r world" where
  "sync_loop srv common_url [] w = (Inr (), w)"
| "sync_loop srv common_url (l # ls) w =
     (case sync_label srv common_url l w of
        (Inl e, w') \<Rightarrow> (Inl e, w')
      | (Inr u, w') \<Rightarrow> sync_loop srv common_url ls w')"

text \<open>Line 133, \<^verbatim>\<open>"https://api.github.com/repos/%s/%s/labels" % (organization, repository)\<close>.\<close>

definition labels_url :: "string \<Rightarrow> string \<Rightarrow> string" where
  "labels_url organization repository =
     ''https://api.github.com/repos/'' @ organization @ ''/'' @ repository @ ''/labels''"

definition adjust_repository_labels ::
  "'r server \<Rightarrow> string \<Rightarrow> string \<Rightarrow> 'r world \<Rightarrow> (error + unit) \<times> 'r world" where
  "adjust_repository_labels srv organization repository w =
     (let common_url = labels_url organization repository;
          w1 = delete_loop srv common_url default_labels w;
          labels = disk w1
      in case lint_labels labels of
           (out, Some e) \<Rightarrow> (Inl e, w1\<lparr>stdout := stdout w1 @ out\<rparr>)
         | (out, None) \<Rightarrow> sync_loop srv common_url labels (w1\<lparr>stdout := stdout w1 @ out\<rparr>))"

section \<open>Link stripping, as the specification describes it\<close>

text \<open>
  The specification's rule: every occurrence of \<^verbatim>\<open>[<text>](<url>)\<close> is replaced by
  \<^verbatim>\<open><text>\<close>, in one pass from the left. An occurrence is an opening bracket, a
  text, \<^verbatim>\<open>](\<close>, a URL and a closing parenthesis, text and URL not empty; the text
  ends at the first \<^verbatim>\<open>](\<close> behind which a URL and its \<^verbatim>\<open>)\<close> follow, and the URL at
  the first \<^verbatim>\<open>)\<close>, so that two links in a line are two occurrences.
\<close>

definition spec_url :: "string \<Rightarrow> nat option" where
  "spec_url s =
     first_match (\<lambda>m. if m < length s \<and> s ! m = CHR '')'' then Some (Suc m) else None)
       [1..<Suc (length s)]"

definition spec_link :: "string \<Rightarrow> (string \<times> nat) option" where
  "spec_link s =
     (case s of
        [] \<Rightarrow> None
      | c # r \<Rightarrow>
          if c \<noteq> CHR ''['' then None
          else first_match
                 (\<lambda>n. if take 2 (drop n r) = ''](''
                      then map_option (\<lambda>m. (take n r, Suc n + 2 + m)) (spec_url (drop (n + 2) r))
                      else None)
                 [1..<Suc (length r)])"

lemma spec_link_pos: "spec_link s = Some (g, n) \<Longrightarrow> 0 < n"
  by (auto simp: spec_link_def split: list.splits if_splits dest!: first_match_Some)

function strip_links_spec :: "string \<Rightarrow> string" where
  "strip_links_spec [] = []"
| "strip_links_spec (c # cs) =
     (case spec_link (c # cs) of
        Some (text, n) \<Rightarrow> text @ strip_links_spec (drop n (c # cs))
      | None \<Rightarrow> c # strip_links_spec cs)"
  by pat_completeness auto
termination
  by (relation "measure length") (auto dest: spec_link_pos)

section \<open>The validator's checks, as the specification lists them\<close>

text \<open>
  The specification gives the validator as six checks per record, in a fixed order,
  of which the first that fails yields the record's one message. \<open>violations\<close> is
  that description, to be compared with \<open>lint_labels\<close>; its third check measures
  the description as the specification strips it.
\<close>

datatype check =
  Name_Present | Description_Present | Description_Short | Color_Present
| Url_Exclude_True | W3c_True

fun passes :: "check \<Rightarrow> label \<Rightarrow> bool" where
  "passes Name_Present l = (name l \<noteq> None)"
| "passes Description_Present l = (description l \<noteq> None)"
| "passes Description_Short l =
     (case description l of
        None \<Rightarrow> False
      | Some d \<Rightarrow> length (strip_links_spec d) \<le> 100)"
| "passes Color_Present l = (color l \<noteq> None)"
| "passes Url_Exclude_True l = (case url_exclude_is_open l of None \<Rightarrow> True | Some b \<Rightarrow> b)"
| "passes W3c_True l = (case w3c l of None \<Rightarrow> True | Some b \<Rightarrow> b)"

definition checks :: "check list" where
  "checks = [Name_Present, Description_Present, Description_Short, Color_Present,
             Url_Exclude_True, W3c_True]"

definition first_failing :: "label \<Rightarrow> check option" where
  "first_failing l = find (\<lambda>c. \<not> passes c l) checks"

fun message :: "check \<Rightarrow> string \<Rightarrow> string" where
  "message Name_Present n = ''A label needs a name''"
| "message Description_Present n = ''A label ('' @ n @ '') needs a description''"
| "message Description_Short n =
     ''GitHub will likely complain about the length of your label ('' @ n @ '')''
     @ [CHR 0x27] @ ''s description.''"
| "message Color_Present n = ''A label ('' @ n @ '') needs a color''"
| "message Url_Exclude_True n =
     ''A label ('' @ n @ '')'' @ [CHR 0x27]
     @ ''s url_exclude_is_open needs to be set to true if present.''"
| "message W3c_True n =
     ''A label ('' @ n @ '')'' @ [CHR 0x27] @ ''s w3c needs to be set to true if present.''"

definition violations :: "label \<Rightarrow> string list" where
  "violations l =
     (case first_failing l of
        None \<Rightarrow> []
      | Some c \<Rightarrow> [message c (case name l of None \<Rightarrow> [] | Some n \<Rightarrow> n)])"

section \<open>The merge, as the specification describes its result\<close>

text \<open>
  The result the specification promises: every local record whose name occurs in
  the feed takes the description and the lower-cased colour of the feed's record of
  that name and \<^verbatim>\<open>w3c: true\<close>, every other local record is unchanged, and every record
  of the feed whose name no local record has is appended as a new record, in the
  order of the feed.
\<close>

definition adopt :: "label \<Rightarrow> label \<Rightarrow> label" where
  "adopt l u = l\<lparr>description := description u, color := map_option lower (color u),
                 w3c := Some True\<rparr>"

definition adopted :: "label \<Rightarrow> label" where
  "adopted u = \<lparr>name = name u, description = description u,
                color = map_option lower (color u), w3c = Some True,
                url_exclude_is_open = None\<rparr>"

definition merge_reference :: "label list \<Rightarrow> label list \<Rightarrow> label list" where
  "merge_reference L U =
     map (\<lambda>l. case find (\<lambda>u. name u = name l) U of Some u \<Rightarrow> adopt l u | None \<Rightarrow> l) L
     @ map adopted (filter (\<lambda>u. name u \<notin> set (map name L)) U)"

section \<open>Example labels\<close>

definition label_a :: label where
  "label_a = \<lparr>name = Some ''a'', description = Some ''d'', color = Some ''c'',
              w3c = None, url_exclude_is_open = None\<rparr>"

definition new_label :: label where
  "new_label = \<lparr>name = Some ''new-label'', description = Some ''[new](https://x/y) things'',
                 color = Some ''ffaa00'', w3c = None, url_exclude_is_open = Some True\<rparr>"

definition privacy_upstream :: label where
  "privacy_upstream = \<lparr>name = Some ''privacy'', description = Some ''Privacy review'',
                        color = Some ''D4C5F9'', w3c = None, url_exclude_is_open = None\<rparr>"

definition a11y_local :: label where
  "a11y_local = \<lparr>name = Some ''a11y'', description = Some ''[Accessibility](url) label'',
                  color = Some ''FFAA00'', w3c = Some True, url_exclude_is_open = None\<rparr>"

definition a11y_upstream :: label where
  "a11y_upstream = \<lparr>name = Some ''a11y'', description = Some ''Accessibility review'',
                     color = Some ''FBCA04'', w3c = None, url_exclude_is_open = None\<rparr>"

definition a11y_world :: "unit world" where
  "a11y_world =
     \<lparr>disk = [label_a, a11y_local], labels_md = [], stdout = [], remote = (), sent = []\<rparr>"

text \<open>
  Two descriptions on which the greedy pattern of line 11 and the specification's
  rule part: two links in one line, and a link with a later closing parenthesis.
\<close>

definition two_links :: string where
  "two_links = ''[a](b)'' @ replicate 95 (CHR '' '') @ ''[c](d)''"

definition late_paren :: string where
  "late_paren = ''[a](b) '' @ replicate 120 (CHR ''x'') @ '' (c)''"


section \<open>Example label stores\<close>

text \<open>A store that keeps the names of its labels and answers as GitHub does.\<close>

fun store_srv :: "string list server" where
  "store_srv names (DELETE u n) =
     (if n \<in> set names then (200, removeAll n names) else (404, names))"
| "store_srv names (PATCH u n l) = (if n \<in> set names then (200, names) else (404, names))"
| "store_srv names (POST u l) =
     (case name l of
        None \<Rightarrow> (422, names)
      | Some n \<Rightarrow> if n \<in> set names then (422, names) else (201, names @ [n]))"

text \<open>A store that refuses every change and knows no label.\<close>

fun failing_srv :: "unit server" where
  "failing_srv r (DELETE u n) = (403, r)"
| "failing_srv r (PATCH u n l) = (404, r)"
| "failing_srv r (POST u l) = (500, r)"

text \<open>A store that knows no label and refuses to create one.\<close>

fun rejecting_srv :: "unit server" where
  "rejecting_srv r (DELETE u n) = (404, r)"
| "rejecting_srv r (PATCH u n l) = (404, r)"
| "rejecting_srv r (POST u l) = (422, r)"

definition store_world :: "string list world" where
  "store_world =
     \<lparr>disk = [label_a], labels_md = [], stdout = [],
      remote = [''bug'', ''a'', ''stale''], sent = []\<rparr>"

definition offline_world :: "unit world" where
  "offline_world =
     \<lparr>disk = [new_label, label_a], labels_md = [], stdout = [], remote = (), sent = []\<rparr>"

section \<open>Exceptions in sequence\<close>

lemma and_then_Inr [simp]: "and_then (Inr x) f = f x"
  by (simp add: and_then_def)

lemma and_then_Inl [simp]: "and_then (Inl e) f = Inl e"
  by (simp add: and_then_def)

lemma and_then_eq_Inr:
  "and_then m f = Inr y \<longleftrightarrow> (\<exists>x. m = Inr x \<and> f x = Inr y)"
  by (cases m) simp_all

lemma subscript_Some [simp]: "subscript (Some x) = Inr x"
  by (simp add: subscript_def)

lemma subscript_None [simp]: "subscript None = Inl KeyError"
  by (simp add: subscript_def)

lemma subscript_eq_Inr: "subscript v = Inr x \<longleftrightarrow> v = Some x"
  by (cases v) simp_all

section \<open>Properties of the link stripping\<close>

lemmas re_eval = remove_markdown_links_def match_link_def match_url_def plus_dot_def dot_def

text \<open>
  C7. Stripping is claimed to replace every \<^verbatim>\<open>[text](url)\<close> by its text, so that a
  description with two links loses both. On one link the code does so:
  \<^verbatim>\<open>"[fetch](https://x/y) spec"\<close> becomes \<^verbatim>\<open>"fetch spec"\<close>. On two links in one line
  the greedy \<^verbatim>\<open>.+\<close> of group 1 runs from the first \<^verbatim>\<open>[\<close> to the last \<^verbatim>\<open>](\<close>, and the
  code returns \<^verbatim>\<open>"a](b) and [c"\<close> where the claim has \<^verbatim>\<open>"a and c"\<close>.
\<close>

theorem remove_markdown_links_greedy:
  "remove_markdown_links ''[fetch](https://x/y) spec'' = ''fetch spec''
   \<and> remove_markdown_links ''[a](b) and [c](d)'' = ''a](b) and [c''
   \<and> remove_markdown_links ''[a](b) and [c](d)'' \<noteq> ''a and c''"
  by (simp add: re_eval)

section \<open>Properties of the validator\<close>



lemma lint_label_no_KeyError: "lint_label l \<noteq> Inl KeyError"
  by (auto simp: lint_label_def and_then_def subscript_def split: option.splits)




text \<open>
  C8. The claim has the third check measure the description with every
  \<^verbatim>\<open>[text](url)\<close> replaced by its text. \<open>lint_labels\<close> measures what the greedy pattern
  of line 11 leaves (C7), and the two part. The first record below has a name, no
  colour, and a description with two links that is 97 characters long once both are
  stripped: the first failing check is the fourth, and the code prints the message of
  the third. The second record is complete, with a description of 126 characters once
  its link is stripped: the third check fails, and the code prints nothing.
\<close>

theorem lint_labels_greedy_length:
  "length (strip_links_spec two_links) = 97
   \<and> first_failing (label_a\<lparr>description := Some two_links, color := None\<rparr>)
       = Some Color_Present
   \<and> violations (label_a\<lparr>description := Some two_links, color := None\<rparr>)
       = [''A label (a) needs a color'']
   \<and> lint_labels [label_a\<lparr>description := Some two_links, color := None\<rparr>]
       = ([''GitHub will likely complain about the length of your label (a)''
           @ [CHR 0x27] @ ''s description.''], None)
   \<and> length (strip_links_spec late_paren) = 126
   \<and> first_failing (label_a\<lparr>description := Some late_paren\<rparr>) = Some Description_Short
   \<and> lint_labels [label_a\<lparr>description := Some late_paren\<rparr>] = ([], None)"
  by code_simp




text \<open>
  C10. On every list of records \<open>lint_labels\<close> ends without a \<^verbatim>\<open>KeyError\<close>: each
  \<^verbatim>\<open>label["name"]\<close> and \<^verbatim>\<open>label["description"]\<close> of the chain is read only in a branch
  behind the test that the key is present.
\<close>

theorem lint_labels_no_KeyError: "snd (lint_labels ls) \<noteq> Some KeyError"
proof (induction ls)
  case Nil
  show ?case by simp
next
  case (Cons l ls)
  show ?case
  proof (cases "lint_label l")
    case (Inl e)
    with lint_label_no_KeyError [of l] show ?thesis by auto
  next
    case (Inr ms)
    with Cons.IH show ?thesis by (auto split: prod.splits)
  qed
qed

section \<open>Properties of the merge\<close>

lemma index_ok_update:
  assumes "index_ok U idx" and "k < length U" and "name (U ! k) = Some n"
  shows "index_ok U (AList.update n k idx)"
  using assms unfolding index_ok_def
  by (induction idx) auto

lemma index_ok_delete: "index_ok U idx \<Longrightarrow> index_ok U (AList.delete n idx)"
  unfolding index_ok_def by (induction idx) auto

lemma index_loop_ok:
  "index_loop us (length pre) idx = Inr idx' \<Longrightarrow> index_ok (pre @ us) idx \<Longrightarrow>
   index_ok (pre @ us) idx'"
proof (induction us arbitrary: pre idx)
  case Nil
  then show ?case by simp
next
  case (Cons u us)
  from Cons.prems(1) obtain n where n: "name u = Some n"
    and rest: "index_loop us (Suc (length pre)) (AList.update n (length pre) idx) = Inr idx'"
    by (auto simp: and_then_eq_Inr subscript_eq_Inr)
  have "index_ok ((pre @ [u]) @ us) (AList.update n (length pre) idx)"
    using Cons.prems(2) n by (intro index_ok_update) simp_all
  with Cons.IH [of "pre @ [u]"] rest show ?case by simp
qed

lemma index_loop_distinct:
  "index_loop us i idx = Inr idx' \<Longrightarrow> distinct (map fst idx) \<Longrightarrow> distinct (map fst idx')"
  by (induction us arbitrary: i idx)
    (auto simp: and_then_eq_Inr subscript_eq_Inr distinct_update)

lemma index_loop_total:
  "list_all named us \<Longrightarrow> \<exists>idx'. index_loop us i idx = Inr idx'"
  by (induction us arbitrary: i idx) (auto simp: named_def)

lemma index_ok_keys:
  assumes "index_ok U idx" and "(n, k) \<in> set idx"
  shows "Some n \<in> set (map name U)"
proof -
  from assms have "k < length U" and "name (U ! k) = Some n"
    by (auto simp: index_ok_def list_all_iff)
  then have "name (U ! k) \<in> name ` set U"
    by (intro imageI nth_mem)
  with \<open>name (U ! k) = Some n\<close> show ?thesis by simp
qed

lemma update_loop_abort:
  "l \<in> set ls \<Longrightarrow> w3c l \<noteq> None \<Longrightarrow> name l = Some n \<Longrightarrow> n \<notin> fst ` set idx \<Longrightarrow>
   \<exists>e. update_loop U ls idx = Inl e"
proof (induction ls arbitrary: idx)
  case Nil
  then show ?case by simp
next
  case (Cons l0 ls)
  show ?case
  proof (cases "l = l0")
    case True
    from Cons.prems(4) have "map_of idx n = None"
      by (simp add: map_of_eq_None_iff)
    with True Cons.prems(2,3) show ?thesis by simp
  next
    case False
    with Cons.prems(1) have "l \<in> set ls" by simp
    have keep: "\<exists>e. update_loop U ls idx0 = Inl e" if "fst ` set idx0 \<subseteq> fst ` set idx" for idx0
      using Cons.IH [OF \<open>l \<in> set ls\<close> Cons.prems(2,3), of idx0] Cons.prems(4) that by auto
    show ?thesis
    proof (cases "name l0")
      case None
      then show ?thesis by simp
    next
      case (Some n0)
      from keep [OF dom_delete_subset] obtain e1 where
        e1: "update_loop U ls (AList.delete n0 idx) = Inl e1"
        by blast
      from keep [OF subset_refl] obtain e2 where e2: "update_loop U ls idx = Inl e2"
        by blast
      show ?thesis
        using Some e1 e2
        by (auto simp: and_then_def list_get_def subscript_def split: option.splits sum.splits)
    qed
  qed
qed

lemma update_loop_error:
  "list_all named ls \<Longrightarrow> list_all complete U \<Longrightarrow> index_ok U idx \<Longrightarrow>
   update_loop U ls idx = Inl e \<Longrightarrow> e = AssertionError"
proof (induction ls arbitrary: idx)
  case Nil
  then show ?case by simp
next
  case (Cons l ls)
  from Cons.prems(1) have "named l" and ls: "list_all named ls"
    by simp_all
  then obtain n where n: "name l = Some n"
    by (auto simp: named_def)
  show ?case
  proof (cases "map_of idx n")
    case None
    with Cons.prems(4) n Cons.IH [OF ls Cons.prems(2,3)] show ?thesis
      by (auto simp: and_then_def split: if_splits sum.splits)
  next
    case (Some k)
    then have "(n, k) \<in> set idx" by (rule map_of_SomeD)
    with Cons.prems(3) have k: "k < length U" 
      by (auto simp: index_ok_def list_all_iff)
    with Cons.prems(2) have "complete (U ! k)"
      by (simp add: list_all_length)
    then obtain d c where "description (U ! k) = Some d" "color (U ! k) = Some c"
      by (auto simp: complete_def)
    with Cons.prems(4) n Some k
      Cons.IH [OF ls Cons.prems(2) index_ok_delete [OF Cons.prems(3)], of n]
    show ?thesis
      by (auto simp: and_then_def list_get_def split: sum.splits)
  qed
qed

lemma index_ok_Nil [simp]: "index_ok U []"
  by (simp add: index_ok_def)

lemma index_loop_start:
  assumes "index_loop U 0 [] = Inr idx"
  shows "index_ok U idx" and "distinct (map fst idx)"
  using index_loop_ok [of U "[]" "[]" idx] index_loop_distinct [of U 0 "[]" idx] assms
  by simp_all

lemma update_loop_append:
  "update_loop U (xs @ ys) idx =
     and_then (update_loop U xs idx) (\<lambda>(xs', idx').
     and_then (update_loop U ys idx') (\<lambda>(ys', idx'').
       Inr (xs' @ ys', idx'')))"
proof (induction xs arbitrary: idx)
  case Nil
  show ?case by (cases "update_loop U ys idx") auto
next
  case (Cons x xs)
  show ?case
    by (auto simp: Cons.IH and_then_def list_get_def subscript_def
          split: option.splits sum.splits prod.splits)
qed

lemma update_loop_again:
  "update_loop U ls idx = Inr (ls1, idx1) \<Longrightarrow> update_loop U ls1 idx = Inr (ls1, idx1)"
proof (induction ls arbitrary: idx ls1 idx1)
  case Nil
  then show ?case by simp
next
  case (Cons l ls)
  from Cons.prems obtain n where n: "name l = Some n"
    by (auto simp: and_then_eq_Inr subscript_eq_Inr)
  show ?case
  proof (cases "map_of idx n")
    case None
    with Cons.prems n obtain ls' where "w3c l = None"
      and "update_loop U ls idx = Inr (ls', idx1)" and "ls1 = l # ls'"
      by (auto simp: and_then_eq_Inr split: if_splits)
    with Cons.IH [of idx ls' idx1] n None show ?thesis by simp
  next
    case (Some k)
    with Cons.prems n obtain d c ls' where "k < length U"
      and "description (U ! k) = Some d" and "color (U ! k) = Some c"
      and "update_loop U ls (AList.delete n idx) = Inr (ls', idx1)"
      and "ls1 = l\<lparr>description := Some d, color := Some (lower c), w3c := Some True\<rparr> # ls'"
      by (auto simp: and_then_eq_Inr subscript_eq_Inr list_get_def split: if_splits)
    with Cons.IH [of "AList.delete n idx" ls' idx1] n Some show ?thesis
      by (simp add: list_get_def)
  qed
qed

lemma update_loop_index:
  "update_loop U ls idx = Inr (ls1, idx1) \<Longrightarrow> index_ok U idx \<Longrightarrow> distinct (map fst idx) \<Longrightarrow>
   index_ok U idx1 \<and> distinct (map fst idx1)"
proof (induction ls arbitrary: idx ls1 idx1)
  case Nil
  then show ?case by simp
next
  case (Cons l ls)
  from Cons.prems(1) obtain n where n: "name l = Some n"
    by (auto simp: and_then_eq_Inr subscript_eq_Inr)
  show ?case
  proof (cases "map_of idx n")
    case None
    with Cons.prems(1) n obtain ls' where "update_loop U ls idx = Inr (ls', idx1)"
      by (auto simp: and_then_eq_Inr split: if_splits)
    with Cons.IH Cons.prems(2,3) show ?thesis by blast
  next
    case (Some k)
    with Cons.prems(1) n obtain ls' where
      "update_loop U ls (AList.delete n idx) = Inr (ls', idx1)"
      by (auto simp: and_then_eq_Inr)
    with Cons.IH [of "AList.delete n idx" ls' idx1] Cons.prems(2,3) show ?thesis
      by (simp add: index_ok_delete distinct_delete)
  qed
qed

lemma add_loop_result:
  "add_loop U rest acc = Inr R \<Longrightarrow> index_ok U rest \<Longrightarrow> distinct (map fst rest) \<Longrightarrow>
   \<exists>A. R = acc @ A \<and> update_loop U A rest = Inr (A, [])"
proof (induction rest arbitrary: acc)
  case Nil
  then show ?case by simp
next
  case (Cons p rest)
  obtain n k where p: "p = (n, k)" by (cases p)
  from Cons.prems(2) p have k: "k < length U" and nk: "name (U ! k) = Some n"
    and ok: "index_ok U rest"
    by (simp_all add: index_ok_def)
  from Cons.prems(3) p have fresh: "n \<notin> fst ` set rest" and dist: "distinct (map fst rest)"
    by simp_all
  from Cons.prems(1) p k nk obtain d c where d: "description (U ! k) = Some d"
    and c: "color (U ! k) = Some c"
    and rest: "add_loop U rest
        (acc @ [\<lparr>name = Some n, description = Some d, color = Some (lower c),
                 w3c = Some True, url_exclude_is_open = None\<rparr>]) = Inr R"
    by (auto simp: and_then_eq_Inr subscript_eq_Inr list_get_def)
  from Cons.IH [OF rest ok dist] obtain A where
    A: "R = (acc @ [\<lparr>name = Some n, description = Some d, color = Some (lower c),
                 w3c = Some True, url_exclude_is_open = None\<rparr>]) @ A"
    and again: "update_loop U A rest = Inr (A, [])"
    by blast
  let ?new = "\<lparr>name = Some n, description = Some d, color = Some (lower c),
                 w3c = Some True, url_exclude_is_open = None\<rparr>"
  have "update_loop U (?new # A) (p # rest) = Inr (?new # A, [])"
    using p k d c again fresh by (simp add: list_get_def)
  with A show ?case by auto
qed

lemma named_Cons:
  "list_all named (l # ls) \<longleftrightarrow> (\<exists>n. name l = Some n) \<and> list_all named ls"
  by (auto simp: named_def)

lemma upt_shift: "[i..<Suc (i + m)] = i # [Suc i..<Suc (i + m)]"
  by (simp add: upt_rec)

lemma update_fresh: "n \<notin> fst ` set idx \<Longrightarrow> AList.update n i idx = idx @ [(n, i)]"
  by (induction idx) auto

lemma index_loop_closed:
  "list_all named us \<Longrightarrow> distinct (map name us) \<Longrightarrow>
   (\<forall>u \<in> set us. the (name u) \<notin> fst ` set idx) \<Longrightarrow>
   index_loop us i idx = Inr (idx @ zip (map (the \<circ> name) us) [i..<i + length us])"
proof (induction us arbitrary: i idx)
  case Nil
  then show ?case by simp
next
  case (Cons u us)
  from Cons.prems(1) obtain n where n: "name u = Some n" and us: "list_all named us"
    unfolding named_Cons by blast
  from Cons.prems(3) n have fresh: "n \<notin> fst ` set idx" by auto
  have later: "\<forall>v \<in> set us. the (name v) \<notin> fst ` set (idx @ [(n, i)])"
  proof
    fix v assume v: "v \<in> set us"
    with us have "named v" by (simp add: list_all_iff)
    then obtain m where m: "name v = Some m" by (auto simp: named_def)
    with v Cons.prems(2) n have "m \<noteq> n" by force
    moreover from Cons.prems(3) v m have "m \<notin> fst ` set idx" by force
    ultimately show "the (name v) \<notin> fst ` set (idx @ [(n, i)])"
      using m by auto
  qed
  from Cons.prems(2) have "distinct (map name us)" by simp
  from Cons.IH [OF us this later, of "Suc i"] n fresh show ?case
    by (simp add: update_fresh upt_shift del: upt_Suc)
qed

lemma update_loop_closed:
  "list_all named ls \<Longrightarrow> distinct (map name ls) \<Longrightarrow> list_all complete U \<Longrightarrow>
   index_ok U idx \<Longrightarrow>
   (\<forall>l \<in> set ls. w3c l \<noteq> None \<longrightarrow> the (name l) \<in> fst ` set idx) \<Longrightarrow>
   update_loop U ls idx =
     Inr (map (\<lambda>l. case map_of idx (the (name l)) of Some k \<Rightarrow> adopt l (U ! k) | None \<Rightarrow> l) ls,
          filter (\<lambda>(n, k). Some n \<notin> set (map name ls)) idx)"
proof (induction ls arbitrary: idx)
  case Nil
  then show ?case by simp
next
  case (Cons l ls)
  from Cons.prems(1) obtain n where n: "name l = Some n" and ls: "list_all named ls"
    unfolding named_Cons by blast
  from Cons.prems(2) n have other: "Some n \<notin> set (map name ls)" and dist: "distinct (map name ls)"
    by auto
  have names: "the (name l') \<noteq> n" if "l' \<in> set ls" for l'
  proof -
    from that ls have "named l'" by (simp add: list_all_iff)
    then obtain m where "name l' = Some m" by (auto simp: named_def)
    with that other show ?thesis by force
  qed
  show ?case
  proof (cases "map_of idx n")
    case None
    then have fresh: "n \<notin> fst ` set idx"
      by (simp add: map_of_eq_None_iff)
    with Cons.prems(5) n have "w3c l = None" by auto
    moreover have "filter (\<lambda>(n', k). Some n' \<notin> set (map name ls)) idx
        = filter (\<lambda>(n', k). Some n' \<notin> set (map name (l # ls))) idx"
      using fresh n by (intro filter_cong) force+
    ultimately show ?thesis
      using Cons.IH [OF ls dist Cons.prems(3,4)] Cons.prems(5) n None by simp
  next
    case (Some k)
    then have "(n, k) \<in> set idx" by (rule map_of_SomeD)
    with Cons.prems(4) have k: "k < length U"
      by (auto simp: index_ok_def list_all_iff)
    with Cons.prems(3) have "complete (U ! k)"
      by (simp add: list_all_length)
    then obtain d c where dc: "description (U ! k) = Some d" "color (U ! k) = Some c"
      by (auto simp: complete_def)
    have w3c': "\<forall>l' \<in> set ls. w3c l' \<noteq> None \<longrightarrow> the (name l') \<in> fst ` set (AList.delete n idx)"
    proof (intro ballI impI)
      fix l' assume l': "l' \<in> set ls" "w3c l' \<noteq> None"
      with Cons.prems(5) have "the (name l') \<in> fst ` set idx" by simp
      moreover from l' have "the (name l') \<noteq> n" by (simp add: names)
      ultimately show "the (name l') \<in> fst ` set (AList.delete n idx)"
        by (auto simp: AList.delete_eq)
    qed
    have same: "map (\<lambda>l. case map_of (AList.delete n idx) (the (name l)) of
                           Some k \<Rightarrow> adopt l (U ! k) | None \<Rightarrow> l) ls
        = map (\<lambda>l. case map_of idx (the (name l)) of Some k \<Rightarrow> adopt l (U ! k) | None \<Rightarrow> l) ls"
      by (intro map_cong refl) (simp add: names)
    have rest: "filter (\<lambda>(n', k). Some n' \<notin> set (map name ls)) (AList.delete n idx)
        = filter (\<lambda>(n', k). Some n' \<notin> set (map name (l # ls))) idx"
      using n by (auto simp: AList.delete_eq intro!: filter_cong)
    from Cons.IH [OF ls dist Cons.prems(3) index_ok_delete [OF Cons.prems(4)] w3c']
    show ?thesis
      using n Some k dc same rest by (simp add: list_get_def adopt_def)
  qed
qed

lemma add_loop_closed:
  "index_ok U rest \<Longrightarrow> list_all complete U \<Longrightarrow>
   add_loop U rest acc = Inr (acc @ map (\<lambda>(n, k). adopted (U ! k)) rest)"
proof (induction rest arbitrary: acc)
  case Nil
  show ?case by simp
next
  case (Cons p rest)
  obtain n k where p: "p = (n, k)" by (cases p)
  from Cons.prems(1) p have k: "k < length U" and nk: "name (U ! k) = Some n"
    and ok: "index_ok U rest"
    by (simp_all add: index_ok_def)
  from Cons.prems(2) k have "complete (U ! k)"
    by (simp add: list_all_length)
  then obtain d c where dc: "description (U ! k) = Some d" "color (U ! k) = Some c"
    by (auto simp: complete_def)
  from Cons.IH [OF ok Cons.prems(2)] p k nk dc show ?case
    by (simp add: list_get_def adopted_def)
qed

lemma map_of_zip_find:
  "U = pre @ us \<Longrightarrow> list_all named us \<Longrightarrow>
   (case map_of (zip (map (the \<circ> name) us) [length pre..<length pre + length us]) n of
      Some k \<Rightarrow> f (U ! k) | None \<Rightarrow> g)
   = (case find (\<lambda>u. name u = Some n) us of Some u \<Rightarrow> f u | None \<Rightarrow> g)"
proof (induction us arbitrary: pre)
  case Nil
  show ?case by simp
next
  case (Cons u us)
  from Cons.prems(2) obtain m where m: "name u = Some m" and us: "list_all named us"
    unfolding named_Cons by blast
  from Cons.prems(1) have U: "U = (pre @ [u]) @ us" by simp
  from Cons.IH [OF U us] Cons.prems(1) m show ?case
    by (simp add: upt_shift del: upt_Suc)
qed

lemma filter_zip_names:
  "U = pre @ us \<Longrightarrow> list_all named us \<Longrightarrow>
   map (\<lambda>(n, k). f (U ! k))
     (filter (\<lambda>(n, k). Some n \<notin> S) (zip (map (the \<circ> name) us) [length pre..<length pre + length us]))
   = map f (filter (\<lambda>u. name u \<notin> S) us)"
proof (induction us arbitrary: pre)
  case Nil
  show ?case by simp
next
  case (Cons u us)
  from Cons.prems(2) obtain m where m: "name u = Some m" and us: "list_all named us"
    unfolding named_Cons by blast
  from Cons.prems(1) have U: "U = (pre @ [u]) @ us" by simp
  from Cons.IH [OF U us] Cons.prems(1) m show ?case
    by (simp add: upt_shift del: upt_Suc)
qed

lemma name_adopt [simp]: "name (adopt l u) = name l"
  by (simp add: adopt_def)

lemma name_adopted [simp]: "name (adopted u) = name u"
  by (simp add: adopted_def)

lemma names_merge_reference:
  "map name (merge_reference L U)
   = map name L @ filter (\<lambda>n. n \<notin> set (map name L)) (map name U)"
  by (simp add: merge_reference_def filter_map comp_def split: option.split cong: map_cong)

text \<open>
  C1. The claim asks of the local records only that those carrying \<^verbatim>\<open>w3c: true\<close>
  have their name in the feed. The code tests the presence of the key, not its
  value (line 49): a local record with \<^verbatim>\<open>w3c: false\<close> and a name that the feed does not
  have satisfies the claim's hypotheses, and the merge fails the assertion instead of
  returning the record unchanged.
\<close>

theorem merge_flag_counterexample:
  "distinct (map name [label_a\<lparr>w3c := Some False\<rparr>])
   \<and> w3c (label_a\<lparr>w3c := Some False\<rparr>) \<noteq> Some True
   \<and> merge_reference [label_a\<lparr>w3c := Some False\<rparr>] [] = [label_a\<lparr>w3c := Some False\<rparr>]
   \<and> merge_labels [label_a\<lparr>w3c := Some False\<rparr>] [] = Inl AssertionError"
  by (simp add: merge_labels_def merge_reference_def label_a_def)

text \<open>
  C1, amended. For local records that all have a name, no two the same, and a feed
  whose records all have name, description and colour, no two with the same name:
  if every local record that has the key \<^verbatim>\<open>w3c\<close>, whatever its value, has its name in
  the feed, then the merge returns the result the specification describes
  (\<open>merge_reference\<close>), and no two records of it have the same name.
\<close>

theorem merge_postcondition:
  assumes named: "list_all named L" and distL: "distinct (map name L)"
    and complete: "list_all complete U" and distU: "distinct (map name U)"
    and w3c: "\<forall>l \<in> set L. w3c l \<noteq> None \<longrightarrow> name l \<in> set (map name U)"
  shows "merge_labels L U = Inr (merge_reference L U)
       \<and> distinct (map name (merge_reference L U))"
proof
  let ?idx = "zip (map (the \<circ> name) U) [0..<length U]"
  from complete have namedU: "list_all named U"
    by (auto simp: list_all_iff complete_def named_def)
  with distU have idx: "index_loop U 0 [] = Inr ?idx"
    using index_loop_closed [of U "[]" 0] by simp
  from index_loop_start [OF idx] have ok: "index_ok U ?idx" by simp
  have keys: "fst ` set ?idx = the ` name ` set U"
    by (simp add: image_comp flip: set_map)
  have w3c': "\<forall>l \<in> set L. w3c l \<noteq> None \<longrightarrow> the (name l) \<in> fst ` set ?idx"
  proof (intro ballI impI)
    fix l assume "l \<in> set L" "w3c l \<noteq> None"
    with w3c have "name l \<in> name ` set U" by simp
    then show "the (name l) \<in> fst ` set ?idx"
      unfolding keys by (rule imageI)
  qed
  have locals: "map (\<lambda>l. case map_of ?idx (the (name l)) of
                           Some k \<Rightarrow> adopt l (U ! k) | None \<Rightarrow> l) L
      = map (\<lambda>l. case find (\<lambda>u. name u = name l) U of Some u \<Rightarrow> adopt l u | None \<Rightarrow> l) L"
  proof (intro map_cong refl)
    fix l assume "l \<in> set L"
    with named have "named l" by (simp add: list_all_iff)
    then obtain n where n: "name l = Some n" by (auto simp: named_def)
    from map_of_zip_find [where U = U and pre = "[]" and us = U and n = n and f = "adopt l" and g = l] namedU n
    show "(case map_of ?idx (the (name l)) of Some k \<Rightarrow> adopt l (U ! k) | None \<Rightarrow> l)
        = (case find (\<lambda>u. name u = name l) U of Some u \<Rightarrow> adopt l u | None \<Rightarrow> l)"
      by simp
  qed
  have ok': "index_ok U (filter (\<lambda>(n, k). Some n \<notin> set (map name L)) ?idx)"
    using ok by (simp add: index_ok_def list_all_iff)
  from filter_zip_names [where U = U and pre = "[]" and us = U and f = adopted and S = "set (map name L)"] namedU
  have news: "map (\<lambda>(n, k). adopted (U ! k)) (filter (\<lambda>(n, k). Some n \<notin> set (map name L)) ?idx)
      = map adopted (filter (\<lambda>u. name u \<notin> set (map name L)) U)"
    by simp
  from update_loop_closed [OF named distL complete ok w3c'] idx
    add_loop_closed [OF ok' complete] locals news
  show "merge_labels L U = Inr (merge_reference L U)"
    by (simp add: merge_labels_def merge_reference_def)
  from distL distU show "distinct (map name (merge_reference L U))"
    by (auto simp: names_merge_reference)
qed

theorem merge_postcondition_witness:
  "merge_labels [label_a, a11y_local] [privacy_upstream, a11y_upstream]
     = Inr [label_a,
            a11y_local\<lparr>description := Some ''Accessibility review'', color := Some ''fbca04''\<rparr>,
            privacy_upstream\<lparr>color := Some ''d4c5f9'', w3c := Some True\<rparr>]
   \<and> distinct (map name (merge_reference [label_a, a11y_local] [privacy_upstream, a11y_upstream]))"
proof -
  have "list_all named [label_a, a11y_local]"
    and "distinct (map name [label_a, a11y_local])"
    and "list_all complete [privacy_upstream, a11y_upstream]"
    and "distinct (map name [privacy_upstream, a11y_upstream])"
    and "\<forall>l \<in> set [label_a, a11y_local].
           w3c l \<noteq> None \<longrightarrow> name l \<in> set (map name [privacy_upstream, a11y_upstream])"
    by (simp_all add: label_a_def a11y_local_def privacy_upstream_def a11y_upstream_def
          named_def complete_def)
  from merge_postcondition [OF this]
  have "merge_labels [label_a, a11y_local] [privacy_upstream, a11y_upstream]
     = Inr (merge_reference [label_a, a11y_local] [privacy_upstream, a11y_upstream])"
    and d: "distinct (map name (merge_reference [label_a, a11y_local] [privacy_upstream, a11y_upstream]))"
    by simp_all
  moreover have "merge_reference [label_a, a11y_local] [privacy_upstream, a11y_upstream]
      = [label_a,
            a11y_local\<lparr>description := Some ''Accessibility review'', color := Some ''fbca04''\<rparr>,
            privacy_upstream\<lparr>color := Some ''d4c5f9'', w3c := Some True\<rparr>]"
    by code_simp
  ultimately show ?thesis by simp
qed

text \<open>
  C2. When \<^verbatim>\<open>labels.json\<close> holds a record with \<^verbatim>\<open>w3c: true\<close> whose name no record of the
  feed has, \<open>import_w3c_labels\<close> ends in an exception and leaves the world as it
  was: nothing is printed and \<^verbatim>\<open>labels.json\<close> keeps its content, the record included.
  When moreover every local record has a name and every record of the feed has name,
  description and colour, so that no \<^verbatim>\<open>KeyError\<close> comes first, the exception is the
  failed assertion of line 50.
\<close>

theorem merge_consistency_check:
  assumes "l \<in> set (disk w)" and "w3c l = Some True" and "name l = Some n"
    and "Some n \<notin> set (map name w3c_labels)"
  shows "(\<exists>e. import_w3c_labels w3c_labels w = (Inl e, w))
       \<and> (list_all named (disk w) \<and> list_all complete w3c_labels \<longrightarrow>
            import_w3c_labels w3c_labels w = (Inl AssertionError, w))"
proof (cases "index_loop w3c_labels 0 []")
  case (Inl e)
  moreover have "\<not> list_all named w3c_labels" if "list_all complete w3c_labels"
    using index_loop_total [of w3c_labels 0 "[]"] Inl by auto
  moreover have "list_all named w3c_labels" if "list_all complete w3c_labels"
    using that by (auto simp: list_all_iff complete_def named_def)
  ultimately show ?thesis
    by (auto simp: import_w3c_labels_def merge_labels_def)
next
  case (Inr idx)
  from index_loop_start [OF Inr] have ok: "index_ok w3c_labels idx" by simp
  with assms(4) have "n \<notin> fst ` set idx"
    by (auto dest: index_ok_keys)
  with update_loop_abort [OF assms(1) _ assms(3), of idx w3c_labels] assms(2)
  obtain e where e: "update_loop w3c_labels (disk w) idx = Inl e"
    by auto
  from update_loop_error [OF _ _ ok e]
  have "e = AssertionError" if "list_all named (disk w)" "list_all complete w3c_labels"
    using that by simp
  with Inr e show ?thesis
    by (auto simp: import_w3c_labels_def merge_labels_def)
qed

theorem merge_consistency_check_witness:
  "a11y_local \<in> set (disk a11y_world) \<and> w3c a11y_local = Some True
   \<and> Some ''a11y'' \<notin> set (map name [privacy_upstream])
   \<and> import_w3c_labels [] a11y_world = (Inl AssertionError, a11y_world)
   \<and> import_w3c_labels [privacy_upstream] a11y_world = (Inl AssertionError, a11y_world)"
proof -
  have local: "a11y_local \<in> set (disk a11y_world)" and flag: "w3c a11y_local = Some True"
    and n: "name a11y_local = Some ''a11y''"
    and gone: "Some ''a11y'' \<notin> set (map name [])"
    and gone': "Some ''a11y'' \<notin> set (map name [privacy_upstream])"
    and wf: "list_all named (disk a11y_world)" "list_all complete []"
      "list_all complete [privacy_upstream]"
    by (simp_all add: a11y_world_def a11y_local_def label_a_def privacy_upstream_def named_def
          complete_def)
  from merge_consistency_check [OF local flag n gone] merge_consistency_check [OF local flag n gone']
    local flag gone' wf
  show ?thesis by simp
qed

text \<open>
  C3. Whenever the merge of a feed into a list of local records succeeds, merging
  the same feed into the result succeeds and returns the result unchanged: every
  record keeps its values and nothing is appended.
\<close>

theorem merge_idempotent:
  assumes "merge_labels L U = Inr L'"
  shows "merge_labels L' U = Inr L'"
proof -
  from assms obtain idx L1 idx1 where idx: "index_loop U 0 [] = Inr idx"
    and upd: "update_loop U L idx = Inr (L1, idx1)"
    and add: "add_loop U idx1 L1 = Inr L'"
    by (auto simp: merge_labels_def and_then_eq_Inr)
  from index_loop_start [OF idx] update_loop_index [OF upd]
  have "index_ok U idx1" and "distinct (map fst idx1)"
    by simp_all
  with add_loop_result [OF add] obtain A where L': "L' = L1 @ A"
    and A: "update_loop U A idx1 = Inr (A, [])"
    by blast
  from update_loop_again [OF upd] A have "update_loop U (L1 @ A) idx = Inr (L1 @ A, [])"
    by (simp add: update_loop_append)
  with idx L' show ?thesis
    by (simp add: merge_labels_def)
qed

theorem merge_idempotent_witness:
  "merge_labels [label_a, a11y_local] [privacy_upstream, a11y_upstream]
     = Inr [label_a,
            a11y_local\<lparr>description := Some ''Accessibility review'', color := Some ''fbca04''\<rparr>,
            privacy_upstream\<lparr>color := Some ''d4c5f9'', w3c := Some True\<rparr>]
   \<and> merge_labels [label_a,
            a11y_local\<lparr>description := Some ''Accessibility review'', color := Some ''fbca04''\<rparr>,
            privacy_upstream\<lparr>color := Some ''d4c5f9'', w3c := Some True\<rparr>]
         [privacy_upstream, a11y_upstream]
     = Inr [label_a,
            a11y_local\<lparr>description := Some ''Accessibility review'', color := Some ''fbca04''\<rparr>,
            privacy_upstream\<lparr>color := Some ''d4c5f9'', w3c := Some True\<rparr>]"
proof -
  have once: "merge_labels [label_a, a11y_local] [privacy_upstream, a11y_upstream]
     = Inr [label_a,
            a11y_local\<lparr>description := Some ''Accessibility review'', color := Some ''fbca04''\<rparr>,
            privacy_upstream\<lparr>color := Some ''d4c5f9'', w3c := Some True\<rparr>]"
    by code_simp
  from merge_idempotent [OF once] once show ?thesis by simp
qed

section \<open>Properties of the synchronisation\<close>

lemma delete_label_eq:
  "srv (remote w) (DELETE cu n) = (s, r) \<Longrightarrow>
   delete_label srv cu n w =
     w\<lparr>remote := r, sent := sent w @ [DELETE cu n],
       stdout := stdout w @ (if s = 200 \<or> s = 404 then [] else [error_line ''Deleting'' n s])\<rparr>"
  by (auto simp: delete_label_def fetch_def report_def)

lemma delete_label_sent: "sent (delete_label srv cu n w) = sent w @ [DELETE cu n]"
  by (cases "srv (remote w) (DELETE cu n)") (simp add: delete_label_eq)

lemma delete_label_disk: "disk (delete_label srv cu n w) = disk w"
  by (cases "srv (remote w) (DELETE cu n)") (simp add: delete_label_eq)

lemma delete_loop_sent: "sent (delete_loop srv cu ns w) = sent w @ map (DELETE cu) ns"
  by (induction ns arbitrary: w) (simp_all add: delete_label_sent)

lemma delete_loop_disk: "disk (delete_loop srv cu ns w) = disk w"
  by (induction ns arbitrary: w) (simp_all add: delete_label_disk)

text \<open>The body of the loop over the local labels sends no \<^verbatim>\<open>DELETE\<close>.\<close>

lemma sync_label_sent:
  "\<exists>rs. sent (snd (sync_label srv cu l w)) = sent w @ rs \<and> \<not> list_ex is_delete rs"
  by (auto simp: sync_label_def update_label_def add_label_def fetch_def report_def
        subscript_def Let_def split: option.splits prod.splits sum.splits)

lemma sync_loop_sent:
  "\<exists>rs. sent (snd (sync_loop srv cu ls w)) = sent w @ rs \<and> \<not> list_ex is_delete rs"
proof (induction ls arbitrary: w)
  case Nil
  show ?case by simp
next
  case (Cons l ls)
  obtain res w' where step: "sync_label srv cu l w = (res, w')"
    by (cases "sync_label srv cu l w")
  from sync_label_sent [of srv cu l w] step
  obtain rs where rs: "sent w' = sent w @ rs" "\<not> list_ex is_delete rs"
    by auto
  show ?case
  proof (cases res)
    case (Inl e)
    with step rs show ?thesis by auto
  next
    case (Inr u)
    from Cons.IH [of w'] obtain rs' where
      rs': "sent (snd (sync_loop srv cu ls w')) = sent w' @ rs'" "\<not> list_ex is_delete rs'"
      by auto
    with step rs Inr show ?thesis by auto
  qed
qed

text \<open>
  The requests of a whole run, ended or aborted: the seven deletions, then requests
  none of which is a \<^verbatim>\<open>DELETE\<close>.
\<close>

lemma adjust_sent:
  "\<exists>rs. sent (snd (adjust_repository_labels srv organization repository w))
         = sent w @ map (DELETE (labels_url organization repository)) default_labels @ rs
       \<and> \<not> list_ex is_delete rs"
proof -
  let ?cu = "labels_url organization repository"
  let ?w1 = "delete_loop srv ?cu default_labels w"
  obtain out r where lint: "lint_labels (disk ?w1) = (out, r)"
    by (cases "lint_labels (disk ?w1)")
  show ?thesis
  proof (cases r)
    case (Some e)
    with lint show ?thesis
      by (simp add: adjust_repository_labels_def Let_def delete_loop_sent)
  next
    case None
    from sync_loop_sent [of srv ?cu "disk ?w1" "?w1\<lparr>stdout := stdout ?w1 @ out\<rparr>"]
    obtain rs where
      "sent (snd (sync_loop srv ?cu (disk ?w1) (?w1\<lparr>stdout := stdout ?w1 @ out\<rparr>)))
         = sent ?w1 @ rs"
      and "\<not> list_ex is_delete rs"
      by auto
    with lint None show ?thesis
      by (simp add: adjust_repository_labels_def Let_def delete_loop_sent)
  qed
qed

text \<open>
  C4. For a local record with a name and a description: when the store answers the
  update of the sanitized record (links stripped from the description, no
  \<^verbatim>\<open>url_exclude_is_open\<close>) with 404, the loop body sends exactly that \<^verbatim>\<open>PATCH\<close> and
  one \<^verbatim>\<open>POST\<close> of the same record. When the \<^verbatim>\<open>POST\<close> is answered with a status \<open>s\<close>
  other than 201 it prints exactly one line, \<^verbatim>\<open>Adding label: \<close> followed by the
  record's name, \<^verbatim>\<open>; status \<close> and \<open>s\<close> in decimal digits; when \<open>s\<close> is 201 it prints
  nothing. It raises nothing, and the loop goes on with the next record.
\<close>

theorem sync_create_fallback:
  assumes "description l = Some d" and "name l = Some n"
    and "l' = l\<lparr>description := Some (remove_markdown_links d), url_exclude_is_open := None\<rparr>"
    and "srv (remote w) (PATCH cu n l') = (404, r1)"
    and "srv r1 (POST cu l') = (s, r2)"
    and "w' = w\<lparr>remote := r2, sent := sent w @ [PATCH cu n l', POST cu l'],
                stdout := stdout w @ (if s = 201 then []
                                       else [''Adding label: '' @ n @ ''; status '' @ str_nat s])\<rparr>"
  shows "sync_label srv cu l w = (Inr (), w') \<and>
         sync_loop srv cu (l # ls) w = sync_loop srv cu ls w'"
  using assms
  by (simp add: sync_label_def update_label_def add_label_def fetch_def report_def
        error_line_def subscript_def Let_def)

theorem sync_create_fallback_witness:
  "sync_label failing_srv ''u'' new_label offline_world
     = (Inr (), offline_world
          \<lparr>sent := [PATCH ''u'' ''new-label''
                      (new_label\<lparr>description := Some ''new things'',
                                url_exclude_is_open := None\<rparr>),
                    POST ''u''
                      (new_label\<lparr>description := Some ''new things'',
                                url_exclude_is_open := None\<rparr>)],
            stdout := [''Adding label: new-label; status 500'']\<rparr>)
   \<and> sync_loop failing_srv ''u'' [new_label, label_a] offline_world
     = sync_loop failing_srv ''u'' [label_a] (offline_world
          \<lparr>sent := [PATCH ''u'' ''new-label''
                      (new_label\<lparr>description := Some ''new things'',
                                url_exclude_is_open := None\<rparr>),
                    POST ''u''
                      (new_label\<lparr>description := Some ''new things'',
                                url_exclude_is_open := None\<rparr>)],
            stdout := [''Adding label: new-label; status 500'']\<rparr>)
   \<and> sync_label rejecting_srv ''u'' label_a offline_world
     = (Inr (), offline_world
          \<lparr>sent := [PATCH ''u'' ''a'' label_a, POST ''u'' label_a],
            stdout := [''Adding label: a; status 422'']\<rparr>)
   \<and> sync_label store_srv ''u'' new_label store_world
     = (Inr (), store_world
          \<lparr>remote := [''bug'', ''a'', ''stale'', ''new-label''],
            sent := [PATCH ''u'' ''new-label''
                      (new_label\<lparr>description := Some ''new things'',
                                url_exclude_is_open := None\<rparr>),
                    POST ''u''
                      (new_label\<lparr>description := Some ''new things'',
                                url_exclude_is_open := None\<rparr>)]\<rparr>)"
  using sync_create_fallback [of new_label "''[new](https://x/y) things''" "''new-label''"
      "new_label\<lparr>description := Some ''new things'', url_exclude_is_open := None\<rparr>"
      failing_srv offline_world "''u''" "()" 500 "()" _ "[label_a]"]
    sync_create_fallback [of label_a "''d''" "''a''" label_a
      rejecting_srv offline_world "''u''" "()" 422 "()" _ "[]"]
    sync_create_fallback [of new_label "''[new](https://x/y) things''" "''new-label''"
      "new_label\<lparr>description := Some ''new things'', url_exclude_is_open := None\<rparr>"
      store_srv store_world "''u''" "[''bug'', ''a'', ''stale'']" 201
      "[''bug'', ''a'', ''stale'', ''new-label'']" _ "[]"]
  by (simp add: new_label_def label_a_def offline_world_def store_world_def re_eval
        str_nat.simps)

text \<open>
  C5. Among the requests of a run of \<open>adjust_repository_labels\<close>, whatever the store
  answers, whatever \<^verbatim>\<open>labels.json\<close> holds, and also when the run ends in an exception,
  there is no \<^verbatim>\<open>DELETE\<close> for a name outside the seven default names.
\<close>

theorem sync_never_deletes:
  assumes "n \<notin> set default_labels"
  shows "DELETE u n \<notin> set (drop (length (sent w))
           (sent (snd (adjust_repository_labels srv organization repository w))))"
proof -
  from adjust_sent [of srv organization repository w] obtain rs where
    "sent (snd (adjust_repository_labels srv organization repository w))
       = sent w @ map (DELETE (labels_url organization repository)) default_labels @ rs"
    and nd: "\<not> list_ex is_delete rs"
    by auto
  moreover from nd have "DELETE u n \<notin> set rs"
    by (auto simp: list_ex_iff)
  ultimately show ?thesis using assms by auto
qed

theorem sync_never_deletes_witness:
  "''stale'' \<notin> set default_labels \<and> ''a'' \<notin> set default_labels
   \<and> DELETE (labels_url ''whatwg'' ''fetch'') ''stale''
       \<notin> set (sent (snd (adjust_repository_labels store_srv ''whatwg'' ''fetch'' store_world)))
   \<and> DELETE (labels_url ''whatwg'' ''fetch'') ''a''
       \<notin> set (sent (snd (adjust_repository_labels store_srv ''whatwg'' ''fetch'' store_world)))"
proof -
  have stale: "''stale'' \<notin> set default_labels" and a: "''a'' \<notin> set default_labels"
    by (simp_all add: default_labels_def)
  have none_sent: "sent store_world = []"
    by (simp add: store_world_def)
  from sync_never_deletes [OF stale, of "labels_url ''whatwg'' ''fetch''" store_world store_srv
      "''whatwg''" "''fetch''"]
    sync_never_deletes [OF a, of "labels_url ''whatwg'' ''fetch''" store_world store_srv
      "''whatwg''" "''fetch''"]
  show ?thesis using stale a by (simp add: none_sent)
qed



end
